theory Spec2Isabelle
  imports
    Complex_Main
    "HOL-Library.Char_ord"
    "HOL-Library.List_Lexorder"
    "HOL-Library.Product_Lexorder"
    "HOL-Library.Sublist"
begin

section \<open>The documentation downloader (download\_docs.py)\<close>

text \<open>
  A shallow embedding of \<^verbatim>\<open>src/documentation_downloader/download_docs.py\<close>.
  The script's own functions (\<^verbatim>\<open>fetch_urls_from_source\<close>, \<^verbatim>\<open>fetch_all_urls\<close>,
  \<^verbatim>\<open>create_directory_structure\<close>, \<^verbatim>\<open>download_file\<close>, \<^verbatim>\<open>main\<close>) are translated
  line by line. What they call in Python's library is modelled in two ways:
  \<^item> string and path functions (\<^verbatim>\<open>str.strip\<close>, \<^verbatim>\<open>str.split\<close>, \<^verbatim>\<open>in\<close>,
    \<^verbatim>\<open>posixpath.join/split/dirname\<close>, \<^verbatim>\<open>os.makedirs\<close>) follow the library's code;
  \<^item> the outside world is explicit: the file system is a table of nodes inside the
    state, every HTTP request, pause and skip message is appended to a trace, and
    the behaviour of \<^verbatim>\<open>requests.get\<close>, \<^verbatim>\<open>re.findall\<close> and
    \<^verbatim>\<open>urllib.parse.urlparse\<close> is a parameter (the record \<open>env\<close>), so every theorem
    holds for whatever the network answers and however the library parses.
  Exceptions are values: every effectful function returns \<open>(exn + 'a) \<times> world\<close>.
  Console output is left out, except the message of a skipped entry; symbolic
  links and concurrent changes of the file system are outside the model.
\<close>

subsection \<open>Python strings\<close>

text \<open>\<^verbatim>\<open>s.strip('/')\<close>: drop every leading and trailing occurrence of the character.\<close>

definition str_rstrip :: "char \<Rightarrow> string \<Rightarrow> string" where
  "str_rstrip c s = rev (dropWhile (\<lambda>x. x = c) (rev s))"

definition str_strip :: "char \<Rightarrow> string \<Rightarrow> string" where
  "str_strip c s = str_rstrip c (dropWhile (\<lambda>x. x = c) s)"

text \<open>\<^verbatim>\<open>s.split('/')\<close>: one piece more than there are separators; never empty.\<close>

fun str_split :: "char \<Rightarrow> string \<Rightarrow> string list" where
  "str_split c [] = [[]]"
| "str_split c (x # xs) =
     (if x = c then [] # str_split c xs
      else (case str_split c xs of
              [] \<Rightarrow> [[x]]
            | w # ws \<Rightarrow> (x # w) # ws))"

text \<open>\<^verbatim>\<open>sub in s\<close> on strings: \<open>sub\<close> occurs in \<open>s\<close> as a contiguous block.\<close>

fun str_contains :: "string \<Rightarrow> string \<Rightarrow> bool" where
  "str_contains sub [] = (sub = [])"
| "str_contains sub (x # xs) = (prefix sub (x # xs) \<or> str_contains sub xs)"

text \<open>\<^verbatim>\<open>'/'.join(parts)\<close>, used only to phrase the specification's path.\<close>

fun str_join :: "string \<Rightarrow> string list \<Rightarrow> string" where
  "str_join sep [] = []"
| "str_join sep [p] = p"
| "str_join sep (p # q # ps) = p @ sep @ str_join sep (q # ps)"

subsection \<open>posixpath\<close>

text \<open>
  \<^verbatim>\<open>posixpath.join(a, *p)\<close>: a component that starts with the separator replaces
  what was joined so far; after an empty path or a trailing separator the component
  is appended as it is; otherwise a separator is put in between.
\<close>

definition join_step :: "string \<Rightarrow> string \<Rightarrow> string" where
  "join_step path b =
     (if b \<noteq> [] \<and> hd b = CHR ''/'' then b
      else if path = [] \<or> last path = CHR ''/'' then path @ b
      else path @ ''/'' @ b)"

definition os_path_join :: "string \<Rightarrow> string list \<Rightarrow> string" where
  "os_path_join a p = foldl join_step a p"

text \<open>
  \<^verbatim>\<open>posixpath.split(p)\<close>: cut after the last separator; trailing separators of the
  head are removed unless the head consists of separators only.
\<close>

definition rstrip_head :: "string \<Rightarrow> string" where
  "rstrip_head h =
     (if h \<noteq> [] \<and> h \<noteq> replicate (length h) (CHR ''/'') then str_rstrip (CHR ''/'') h else h)"

definition os_path_split :: "string \<Rightarrow> string \<times> string" where
  "os_path_split p =
     (rstrip_head (rev (dropWhile (\<lambda>x. x \<noteq> CHR ''/'') (rev p))),
      rev (takeWhile (\<lambda>x. x \<noteq> CHR ''/'') (rev p)))"

definition os_path_dirname :: "string \<Rightarrow> string" where
  "os_path_dirname p = fst (os_path_split p)"


subsection \<open>Exceptions\<close>

text \<open>
  The exceptions that can reach the script. \<^verbatim>\<open>requests.HTTPError\<close> is a
  \<^verbatim>\<open>RequestException\<close>; both handlers of the script end with \<^verbatim>\<open>except Exception\<close>,
  which does not catch a \<^verbatim>\<open>KeyboardInterrupt\<close>.
\<close>

datatype exn =
    ConnectionError
  | Timeout
  | TooManyRedirects
  | HTTPError nat
  | FileNotFoundError
  | FileExistsError
  | NotADirectoryError
  | IsADirectoryError
  | PermissionError
  | ValueError
  | RegexError
  | KeyboardInterrupt

fun is_RequestException :: "exn \<Rightarrow> bool" where
  "is_RequestException ConnectionError = True"
| "is_RequestException Timeout = True"
| "is_RequestException TooManyRedirects = True"
| "is_RequestException (HTTPError _) = True"
| "is_RequestException _ = False"

fun is_OSError :: "exn \<Rightarrow> bool" where
  "is_OSError FileNotFoundError = True"
| "is_OSError FileExistsError = True"
| "is_OSError NotADirectoryError = True"
| "is_OSError IsADirectoryError = True"
| "is_OSError PermissionError = True"
| "is_OSError _ = False"

fun is_Exception :: "exn \<Rightarrow> bool" where
  "is_Exception KeyboardInterrupt = False"
| "is_Exception _ = True"

subsection \<open>The world: file system and trace\<close>

datatype node = Dir | File string

record http_request =
  req_verb :: string
  req_url :: string
  req_headers :: "(string \<times> string) list"
  req_timeout :: nat
  req_allow_redirects :: bool

record http_response =
  status_code :: nat
  resp_text :: string

datatype event =
    HttpGet http_request
  | Sleep rat
  | SkipExisting string

text \<open>
  A node is stored under its absolute location, a list of names from the root; the
  root itself is always a directory. \<open>cwd\<close> is the location relative paths start
  from, and \<open>writable d\<close> says whether the system lets an entry be created or
  written in directory \<open>d\<close> (permissions, read-only mounts, full disks).
  The trace lists, oldest first, what the run did to the outside.
\<close>

record world =
  entries :: "string list \<Rightarrow> node option"
  cwd :: "string list"
  writable :: "string list \<Rightarrow> bool"
  trace :: "event list"

definition lookup :: "world \<Rightarrow> string list \<Rightarrow> node option" where
  "lookup w loc = (if loc = [] then Some Dir else entries w loc)"

text \<open>
  Path resolution, one component at a time: a component is looked up only in a
  directory; an empty component and \<^verbatim>\<open>.\<close> stay, \<^verbatim>\<open>..\<close> goes up (the root is its own
  parent), a name goes down.
\<close>

fun walk :: "world \<Rightarrow> string list \<Rightarrow> string list \<Rightarrow> string list option" where
  "walk w cur [] = Some cur"
| "walk w cur (c # cs) =
     (if lookup w cur \<noteq> Some Dir then None
      else if c = [] \<or> c = ''.'' then walk w cur cs
      else if c = ''..'' then walk w (butlast cur) cs
      else walk w (cur @ [c]) cs)"

definition start_of :: "world \<Rightarrow> string \<Rightarrow> string list" where
  "start_of w p = (if p \<noteq> [] \<and> hd p = CHR ''/'' then [] else cwd w)"

definition resolve :: "world \<Rightarrow> string \<Rightarrow> string list option" where
  "resolve w p = (if p = [] then None else walk w (start_of w p) (str_split (CHR ''/'') p))"

definition os_path_exists :: "world \<Rightarrow> string \<Rightarrow> bool" where
  "os_path_exists w p =
     (case resolve w p of None \<Rightarrow> False | Some loc \<Rightarrow> lookup w loc \<noteq> None)"

definition os_path_isdir :: "world \<Rightarrow> string \<Rightarrow> bool" where
  "os_path_isdir w p =
     (case resolve w p of None \<Rightarrow> False | Some loc \<Rightarrow> lookup w loc = Some Dir)"

text \<open>
  \<^verbatim>\<open>os.mkdir(p)\<close>: trailing separators are ignored, the parent must resolve to a
  directory, and the last name must be new.
\<close>

definition drop_trailing_empty :: "string list \<Rightarrow> string list" where
  "drop_trailing_empty cs = rev (dropWhile (\<lambda>c. c = []) (rev cs))"

definition os_mkdir :: "string \<Rightarrow> world \<Rightarrow> (exn + unit) \<times> world" where
  "os_mkdir p w =
     (if p = [] then (Inl FileNotFoundError, w)
      else
        let cs = drop_trailing_empty (str_split (CHR ''/'') p) in
        if cs = [] then (Inl FileExistsError, w)
        else
          (case walk w (start_of w p) (butlast cs) of
             None \<Rightarrow> (Inl FileNotFoundError, w)
           | Some parent \<Rightarrow>
               if lookup w parent = None then (Inl FileNotFoundError, w)
               else if lookup w parent \<noteq> Some Dir then (Inl NotADirectoryError, w)
               else if last cs = ''.'' \<or> last cs = ''..'' then (Inl FileExistsError, w)
               else if lookup w (parent @ [last cs]) \<noteq> None then (Inl FileExistsError, w)
               else if \<not> writable w parent then (Inl PermissionError, w)
               else (Inr (), w\<lparr>entries := (entries w)(parent @ [last cs] \<mapsto> Dir)\<rparr>)))"

text \<open>
  \<^verbatim>\<open>open(p, 'w').write(s)\<close>: the parent must resolve to a directory, the name must
  not be a directory; the file is created or replaced.
\<close>

definition write_text :: "string \<Rightarrow> string \<Rightarrow> world \<Rightarrow> (exn + unit) \<times> world" where
  "write_text p s w =
     (if p = [] then (Inl FileNotFoundError, w)
      else
        let cs = str_split (CHR ''/'') p in
        (case walk w (start_of w p) (butlast cs) of
           None \<Rightarrow> (Inl FileNotFoundError, w)
         | Some parent \<Rightarrow>
             if lookup w parent = None then (Inl FileNotFoundError, w)
             else if lookup w parent \<noteq> Some Dir then (Inl NotADirectoryError, w)
             else if last cs = [] \<or> last cs = ''.'' \<or> last cs = ''..'' then (Inl IsADirectoryError, w)
             else if lookup w (parent @ [last cs]) = Some Dir then (Inl IsADirectoryError, w)
             else if \<not> writable w parent then (Inl PermissionError, w)
             else (Inr (), w\<lparr>entries := (entries w)(parent @ [last cs] \<mapsto> File s)\<rparr>)))"

text \<open>
  \<^verbatim>\<open>os.makedirs(name, exist_ok=True)\<close>, after the library's code: split off the last
  component (twice when the name ends with a separator); when the head is missing,
  make it first, passing over a \<^verbatim>\<open>FileExistsError\<close>; a last component \<^verbatim>\<open>.\<close> needs
  nothing more; then \<^verbatim>\<open>mkdir\<close>, whose \<^verbatim>\<open>OSError\<close> is dropped when the name is a
  directory by then.
\<close>

definition makedirs_parts :: "string \<Rightarrow> string \<times> string" where
  "makedirs_parts name =
     (if snd (os_path_split name) = [] then os_path_split (fst (os_path_split name))
      else os_path_split name)"

definition mkdir_exist_ok :: "string \<Rightarrow> world \<Rightarrow> (exn + unit) \<times> world" where
  "mkdir_exist_ok name w =
     (case os_mkdir name w of
        (Inr u, w1) \<Rightarrow> (Inr u, w1)
      | (Inl e, w1) \<Rightarrow>
          if is_OSError e \<and> os_path_isdir w1 name then (Inr (), w1) else (Inl e, w1))"

lemma os_path_split_length:
  "length (fst (os_path_split p)) + length (snd (os_path_split p)) \<le> length p"
proof -
  have "length (str_rstrip (CHR ''/'') h) \<le> length h" for h
    by (simp add: str_rstrip_def length_dropWhile_le order_trans [OF length_dropWhile_le])
  then have "length (rstrip_head h) \<le> length h" for h
    by (simp add: rstrip_head_def)
  moreover have "length (dropWhile (\<lambda>x. x \<noteq> CHR ''/'') (rev p))
      + length (takeWhile (\<lambda>x. x \<noteq> CHR ''/'') (rev p)) = length p"
    by (metis add.commute length_append length_rev takeWhile_dropWhile_id)
  ultimately show ?thesis
    unfolding os_path_split_def fst_conv snd_conv length_rev
    by (metis (no_types, lifting) add.commute add_le_cancel_left length_rev order_trans
        order_refl)
qed

lemma makedirs_parts_shorter:
  assumes "snd (makedirs_parts name) \<noteq> []"
  shows "length (fst (makedirs_parts name)) < length name"
proof -
  have short: "snd (os_path_split p) \<noteq> [] \<Longrightarrow> length (fst (os_path_split p)) < length p" for p
    using os_path_split_length [of p] by (cases "snd (os_path_split p)") auto
  show ?thesis
  proof (cases "snd (os_path_split name) = []")
    case True
    have "length (fst (os_path_split name)) \<le> length name"
      using os_path_split_length [of name] by simp
    moreover have "length (fst (makedirs_parts name)) < length (fst (os_path_split name))"
      using short [of "fst (os_path_split name)"] assms True
      by (simp add: makedirs_parts_def)
    ultimately show ?thesis by simp
  next
    case False
    then show ?thesis
      using short [of name] by (simp add: makedirs_parts_def)
  qed
qed

function os_makedirs :: "string \<Rightarrow> world \<Rightarrow> (exn + unit) \<times> world" where
  "os_makedirs name w =
     (if fst (makedirs_parts name) \<noteq> [] \<and> snd (makedirs_parts name) \<noteq> []
         \<and> \<not> os_path_exists w (fst (makedirs_parts name))
      then
        (case os_makedirs (fst (makedirs_parts name)) w of
           (Inl e, w1) \<Rightarrow>
             if e = FileExistsError
             then (if snd (makedirs_parts name) = ''.'' then (Inr (), w1)
                   else mkdir_exist_ok name w1)
             else (Inl e, w1)
         | (Inr u, w1) \<Rightarrow>
             if snd (makedirs_parts name) = ''.'' then (Inr (), w1)
             else mkdir_exist_ok name w1)
      else mkdir_exist_ok name w)"
  by pat_completeness auto
termination
  by (relation "measure (\<lambda>(name, w). length name)") (auto simp: makedirs_parts_shorter)

declare os_makedirs.simps [simp del]

subsection \<open>What the libraries answer\<close>

text \<open>
  \<open>network\<close> answers a request given everything the run has done so far, so the
  same request may be answered differently the second time. \<open>re_findall\<close> is
  \<^verbatim>\<open>re.findall(pattern, content)\<close> and \<open>urlparse_path\<close> is
  \<^verbatim>\<open>urlparse(url).path\<close>; each may raise.
\<close>

record env =
  network :: "event list \<Rightarrow> http_request \<Rightarrow> exn + http_response"
  re_findall :: "string \<Rightarrow> string \<Rightarrow> exn + string list"
  urlparse_path :: "string \<Rightarrow> exn + string"

definition requests_get ::
  "env \<Rightarrow> string \<Rightarrow> (string \<times> string) list \<Rightarrow> nat \<Rightarrow> bool \<Rightarrow> world
    \<Rightarrow> (exn + http_response) \<times> world" where
  "requests_get e url headers timeout allow_redirects w =
     (let req = \<lparr>req_verb = ''GET'', req_url = url, req_headers = headers,
                 req_timeout = timeout, req_allow_redirects = allow_redirects\<rparr>
      in (network e (trace w) req, w\<lparr>trace := trace w @ [HttpGet req]\<rparr>))"

text \<open>\<^verbatim>\<open>Response.raise_for_status()\<close> raises for the 4xx and 5xx codes only.\<close>

definition raise_for_status :: "http_response \<Rightarrow> exn + unit" where
  "raise_for_status r =
     (if 400 \<le> status_code r \<and> status_code r < 600 then Inl (HTTPError (status_code r))
      else Inr ())"

definition time_sleep :: "rat \<Rightarrow> world \<Rightarrow> world" where
  "time_sleep d w = w\<lparr>trace := trace w @ [Sleep d]\<rparr>"

subsection \<open>The script\<close>

record source_config =
  cfg_url :: string
  cfg_pattern :: string
  cfg_name :: string

definition backslash :: string where
  "backslash = [CHR 0x5C]"

definition claude_docs_config :: source_config where
  "claude_docs_config =
     \<lparr>cfg_url = ''https://docs.anthropic.com/llms.txt'',
      cfg_pattern = ''https://docs'' @ backslash @ ''.claude'' @ backslash @ ''.com/[^''
         @ backslash @ ''s'' @ backslash @ '')]+'' @ backslash @ ''.md'',
      cfg_name = ''Claude Docs''\<rparr>"

definition claude_code_config :: source_config where
  "claude_code_config =
     \<lparr>cfg_url = ''https://code.claude.com/docs/llms.txt'',
      cfg_pattern = ''https://[^'' @ backslash @ ''s'' @ backslash @ '')]+''
         @ backslash @ ''.md'',
      cfg_name = ''Claude Code Docs''\<rparr>"

definition SOURCES :: "string \<Rightarrow> source_config option" where
  "SOURCES = map_of
     [(''claude-docs'', claude_docs_config), (''claude-code'', claude_code_config)]"

definition user_agent_headers :: "(string \<times> string) list" where
  "user_agent_headers =
     [(''User-Agent'', ''Mozilla/5.0 (Windows NT 10.0; Win64; x64) AppleWebKit/537.36'')]"

text \<open>
  Lines 63-65: \<^verbatim>\<open>if filter_pattern:\<close> is false for \<^verbatim>\<open>None\<close> and for the empty
  string; otherwise the matches containing the filter are kept, in order.
\<close>

definition apply_filter :: "string option \<Rightarrow> string list \<Rightarrow> string list" where
  "apply_filter filter_pattern matches =
     (case filter_pattern of
        None \<Rightarrow> matches
      | Some f \<Rightarrow> if f = [] then matches else filter (\<lambda>url. str_contains f url) matches)"

text \<open>Lines 39-71, the body of the \<^verbatim>\<open>try\<close> of \<^verbatim>\<open>fetch_urls_from_source\<close>.\<close>

definition fetch_try ::
  "env \<Rightarrow> string \<Rightarrow> source_config \<Rightarrow> string option \<Rightarrow> bool \<Rightarrow> world
    \<Rightarrow> (exn + (string \<times> string) set) \<times> world" where
  "fetch_try e source_name source_config filter_pattern follow_redirects w =
     (case requests_get e (cfg_url source_config) user_agent_headers 30 follow_redirects w of
        (Inl x, w1) \<Rightarrow> (Inl x, w1)
      | (Inr response, w1) \<Rightarrow>
          (case raise_for_status response of
             Inl x \<Rightarrow> (Inl x, w1)
           | Inr _ \<Rightarrow>
               (case re_findall e (cfg_pattern source_config) (resp_text response) of
                  Inl x \<Rightarrow> (Inl x, w1)
                | Inr matches \<Rightarrow>
                    (Inr ((\<lambda>url. (url, source_name)) ` set (apply_filter filter_pattern matches)),
                     w1))))"

text \<open>
  Lines 73-79: both handlers only print, and the function returns \<open>urls\<close>, which
  is still the empty set whenever the body raised (the additions of lines 68-69 come
  after the last call that can raise).
\<close>

definition fetch_urls_from_source ::
  "env \<Rightarrow> string \<Rightarrow> source_config \<Rightarrow> string option \<Rightarrow> bool \<Rightarrow> world
    \<Rightarrow> (exn + (string \<times> string) set) \<times> world" where
  "fetch_urls_from_source e source_name source_config filter_pattern follow_redirects w =
     (case fetch_try e source_name source_config filter_pattern follow_redirects w of
        (Inr urls, w1) \<Rightarrow> (Inr urls, w1)
      | (Inl x, w1) \<Rightarrow>
          if is_RequestException x then (Inr {}, w1)
          else if is_Exception x then (Inr {}, w1)
          else (Inl x, w1))"

text \<open>Lines 84-91: the loop of \<^verbatim>\<open>fetch_all_urls\<close>, with \<open>all_urls\<close> as accumulator.\<close>

fun fetch_all_loop ::
  "env \<Rightarrow> string list \<Rightarrow> string option \<Rightarrow> bool \<Rightarrow> (string \<times> string) set \<Rightarrow> world
    \<Rightarrow> (exn + (string \<times> string) set) \<times> world" where
  "fetch_all_loop e [] filter_pattern follow_redirects all_urls w = (Inr all_urls, w)"
| "fetch_all_loop e (source_name # rest) filter_pattern follow_redirects all_urls w =
     (case SOURCES source_name of
        None \<Rightarrow> fetch_all_loop e rest filter_pattern follow_redirects all_urls w
      | Some source_config \<Rightarrow>
          (case fetch_urls_from_source e source_name source_config filter_pattern
                  follow_redirects w of
             (Inl x, w1) \<Rightarrow> (Inl x, w1)
           | (Inr urls, w1) \<Rightarrow>
               fetch_all_loop e rest filter_pattern follow_redirects (all_urls \<union> urls) w1))"

definition fetch_all_urls ::
  "env \<Rightarrow> string list \<Rightarrow> string option \<Rightarrow> bool \<Rightarrow> world
    \<Rightarrow> (exn + (string \<times> string) set) \<times> world" where
  "fetch_all_urls e sources filter_pattern follow_redirects w =
     fetch_all_loop e sources filter_pattern follow_redirects {} w"

text \<open>Lines 99-110. \<^verbatim>\<open>split\<close> never returns an empty list, so \<open>last\<close> is defined.\<close>

definition path_parts_of :: "string \<Rightarrow> string list" where
  "path_parts_of path = str_split (CHR ''/'') (str_strip (CHR ''/'') path)"

definition create_directory_structure ::
  "env \<Rightarrow> string \<Rightarrow> string \<Rightarrow> string \<Rightarrow> world \<Rightarrow> (exn + string) \<times> world" where
  "create_directory_structure e url base_dir source_name w =
     (case urlparse_path e url of
        Inl x \<Rightarrow> (Inl x, w)
      | Inr path \<Rightarrow>
          let path_parts = path_parts_of path;
              dir_path = os_path_join base_dir (source_name # butlast path_parts)
          in (case os_makedirs dir_path w of
                (Inl x, w1) \<Rightarrow> (Inl x, w1)
              | (Inr _, w1) \<Rightarrow> (Inr (os_path_join dir_path [last path_parts]), w1)))"

text \<open>
  Lines 116-132, the body of the \<^verbatim>\<open>try\<close> of \<^verbatim>\<open>download_file\<close>. The call of line 122
  passes no \<^verbatim>\<open>allow_redirects\<close>; for a GET the library's default is \<^verbatim>\<open>True\<close>.
\<close>

definition download_try :: "env \<Rightarrow> string \<Rightarrow> string \<Rightarrow> world \<Rightarrow> (exn + bool) \<times> world" where
  "download_try e url local_path w =
     (case requests_get e url user_agent_headers 30 True w of
        (Inl x, w1) \<Rightarrow> (Inl x, w1)
      | (Inr response, w1) \<Rightarrow>
          (case raise_for_status response of
             Inl x \<Rightarrow> (Inl x, w1)
           | Inr _ \<Rightarrow>
               (case os_makedirs (os_path_dirname local_path) w1 of
                  (Inl x, w2) \<Rightarrow> (Inl x, w2)
                | (Inr _, w2) \<Rightarrow>
                    (case write_text local_path (resp_text response) w2 of
                       (Inl x, w3) \<Rightarrow> (Inl x, w3)
                     | (Inr _, w3) \<Rightarrow> (Inr True, w3)))))"

definition download_file :: "env \<Rightarrow> string \<Rightarrow> string \<Rightarrow> world \<Rightarrow> (exn + bool) \<times> world" where
  "download_file e url local_path w =
     (case download_try e url local_path w of
        (Inr ok, w1) \<Rightarrow> (Inr ok, w1)
      | (Inl x, w1) \<Rightarrow>
          if is_RequestException x then (Inr False, w1)
          else if is_Exception x then (Inr False, w1)
          else (Inl x, w1))"

text \<open>The three counters of lines 223-225, printed by lines 250-252.\<close>

record tally =
  successful :: nat
  failed :: nat
  skipped :: nat

text \<open>\<^verbatim>\<open>sorted(url_tuples)\<close>: the elements of the set in increasing order of the pair.\<close>

definition sorted_tuples :: "(string \<times> string) set \<Rightarrow> (string \<times> string) list" where
  "sorted_tuples url_tuples = sorted_list_of_set url_tuples"

text \<open>Lines 227-246, the body of the loop for the entries still to come.\<close>

fun download_loop ::
  "env \<Rightarrow> string \<Rightarrow> (string \<times> string) list \<Rightarrow> tally \<Rightarrow> world \<Rightarrow> (exn + tally) \<times> world" where
  "download_loop e out [] t w = (Inr t, w)"
| "download_loop e out ((url, source_name) # rest) t w =
     (case create_directory_structure e url out source_name w of
        (Inl x, w1) \<Rightarrow> (Inl x, w1)
      | (Inr local_path, w1) \<Rightarrow>
          if os_path_exists w1 local_path
          then download_loop e out rest (t\<lparr>skipped := skipped t + 1\<rparr>)
                 (w1\<lparr>trace := trace w1 @ [SkipExisting local_path]\<rparr>)
          else
            (case download_file e url local_path w1 of
               (Inl x, w2) \<Rightarrow> (Inl x, w2)
             | (Inr ok, w2) \<Rightarrow>
                 download_loop e out rest
                   (if ok then t\<lparr>successful := successful t + 1\<rparr>
                    else t\<lparr>failed := failed t + 1\<rparr>)
                   (time_sleep (1 / 2) w2)))"

text \<open>The parsed command line (lines 158-189) and \<^verbatim>\<open>main\<close> from line 191 on.\<close>

record args =
  arg_filter :: "string option"
  arg_output :: string
  arg_claude_docs :: bool
  arg_claude_code :: bool
  arg_no_follow_redirects :: bool

definition sources_to_fetch :: "args \<Rightarrow> string list" where
  "sources_to_fetch a =
     (if arg_claude_docs a \<or> arg_claude_code a
      then (if arg_claude_docs a then [''claude-docs''] else [])
           @ (if arg_claude_code a then [''claude-code''] else [])
      else [''claude-docs'', ''claude-code''])"

text \<open>\<open>None\<close> is the early return of line 217, \<open>Some t\<close> the tally of the summary.\<close>

definition main :: "env \<Rightarrow> args \<Rightarrow> world \<Rightarrow> (exn + tally option) \<times> world" where
  "main e a w =
     (let follow_redirects = \<not> arg_no_follow_redirects a in
      case fetch_all_urls e (sources_to_fetch a) (arg_filter a) follow_redirects w of
        (Inl x, w1) \<Rightarrow> (Inl x, w1)
      | (Inr url_tuples, w1) \<Rightarrow>
          if url_tuples = {} then (Inr None, w1)
          else
            (case os_makedirs (arg_output a) w1 of
               (Inl x, w2) \<Rightarrow> (Inl x, w2)
             | (Inr _, w2) \<Rightarrow>
                 (case download_loop e (arg_output a) (sorted_tuples url_tuples)
                         \<lparr>successful = 0, failed = 0, skipped = 0\<rparr> w2 of
                    (Inl x, w3) \<Rightarrow> (Inl x, w3)
                  | (Inr t, w3) \<Rightarrow> (Inr (Some t), w3))))"

subsection \<open>Vocabulary of the properties\<close>

text \<open>The request of lines 45-50 and the request of line 122, as they are issued.\<close>

definition index_request :: "source_config \<Rightarrow> bool \<Rightarrow> http_request" where
  "index_request source_config follow_redirects =
     \<lparr>req_verb = ''GET'', req_url = cfg_url source_config, req_headers = user_agent_headers,
      req_timeout = 30, req_allow_redirects = follow_redirects\<rparr>"

definition file_request :: "string \<Rightarrow> http_request" where
  "file_request url =
     \<lparr>req_verb = ''GET'', req_url = url, req_headers = user_agent_headers,
      req_timeout = 30, req_allow_redirects = True\<rparr>"

text \<open>
  The specification's reading of the aggregator: the identifiers that the registry
  knows, each with its descriptor, and the union of what the index fetcher returns
  for them, in order.
\<close>

definition registered :: "string list \<Rightarrow> (string \<times> source_config) list" where
  "registered sources =
     concat (map (\<lambda>s. case SOURCES s of None \<Rightarrow> [] | Some c \<Rightarrow> [(s, c)]) sources)"

fun union_of_fetches ::
  "env \<Rightarrow> (string \<times> source_config) list \<Rightarrow> string option \<Rightarrow> bool \<Rightarrow> world
    \<Rightarrow> (exn + (string \<times> string) set) \<times> world" where
  "union_of_fetches e [] f r w = (Inr {}, w)"
| "union_of_fetches e ((s, c) # rest) f r w =
     (case fetch_urls_from_source e s c f r w of
        (Inl x, w1) \<Rightarrow> (Inl x, w1)
      | (Inr urls, w1) \<Rightarrow>
          (case union_of_fetches e rest f r w1 of
             (Inl x, w2) \<Rightarrow> (Inl x, w2)
           | (Inr others, w2) \<Rightarrow> (Inr (urls \<union> others), w2)))"

text \<open>The directory and the local target of a link, as strings, without any effect.\<close>

definition dir_path_of :: "string \<Rightarrow> string \<Rightarrow> string \<Rightarrow> string" where
  "dir_path_of path base_dir source_name =
     os_path_join base_dir (source_name # butlast (path_parts_of path))"

definition local_path_of :: "string \<Rightarrow> string \<Rightarrow> string \<Rightarrow> string" where
  "local_path_of path base_dir source_name =
     os_path_join (dir_path_of path base_dir source_name) [last (path_parts_of path)]"


text \<open>The URLs requested in a trace, in the order of the requests.\<close>

fun requested_urls :: "event list \<Rightarrow> string list" where
  "requested_urls [] = []"
| "requested_urls (HttpGet r # es) = req_url r # requested_urls es"
| "requested_urls (Sleep d # es) = requested_urls es"
| "requested_urls (SkipExisting p # es) = requested_urls es"

text \<open>
  A stretch of trace is paced when every request is directly followed by a pause of
  half a time unit, no skip message is directly followed by a pause, and no pause
  stands anywhere else.
\<close>

fun paced :: "event list \<Rightarrow> bool" where
  "paced [] = True"
| "paced (HttpGet r # Sleep d # es) = (d = 1 / 2 \<and> paced es)"
| "paced (HttpGet r # es) = False"
| "paced (SkipExisting p # Sleep d # es) = False"
| "paced (SkipExisting p # es) = paced es"
| "paced (Sleep d # es) = False"


text \<open>
  Two notions used only in the proofs. \<open>extends w w'\<close>: the second world has the
  same working directory and keeps every directory and every entry of the first.
  \<open>named_tail p c\<close>: the path \<open>p\<close> ends in the name \<open>c\<close>, possibly followed by
  separators.
\<close>

definition extends :: "world \<Rightarrow> world \<Rightarrow> bool" where
  "extends w w' = (cwd w' = cwd w
      \<and> (\<forall>loc. lookup w loc = Some Dir \<longrightarrow> lookup w' loc = Some Dir)
      \<and> (\<forall>loc. lookup w loc \<noteq> None \<longrightarrow> lookup w' loc \<noteq> None))"


subsection \<open>Sample surroundings for the examples\<close>

text \<open>
  Concrete library behaviour for the examples below. \<open>sample_findall\<close> returns the
  blank-separated words that start with the literal prefix of the pattern and end
  in \<^verbatim>\<open>.md\<close> with something in between, which is what \<^verbatim>\<open>re.findall\<close> returns for
  the two registered patterns on the sample documents (words without a closing
  parenthesis, separated by single blanks, each ending in \<^verbatim>\<open>.md\<close> at most once).
  \<open>sample_urlparse_path\<close> is the path of a URL of the form
  \<^verbatim>\<open>https://host/path\<close> without query or fragment.
\<close>

definition literal_prefix :: "string \<Rightarrow> string" where
  "literal_prefix pattern =
     (if pattern = cfg_pattern claude_docs_config then ''https://docs.claude.com/''
      else ''https://'')"

definition sample_findall :: "string \<Rightarrow> string \<Rightarrow> exn + string list" where
  "sample_findall pattern content =
     Inr (filter (\<lambda>t. prefix (literal_prefix pattern) t \<and> suffix ''.md'' t
                      \<and> length (literal_prefix pattern) + 3 < length t)
            (str_split (CHR '' '') content))"

definition sample_urlparse_path :: "string \<Rightarrow> exn + string" where
  "sample_urlparse_path url = Inr (dropWhile (\<lambda>c. c \<noteq> CHR ''/'') (drop 8 url))"

definition sample_network :: "event list \<Rightarrow> http_request \<Rightarrow> exn + http_response" where
  "sample_network t r =
     (if req_url r = ''https://docs.anthropic.com/llms.txt''
      then Inr \<lparr>status_code = 200,
                resp_text = ''See https://docs.claude.com/en/api.md and https://docs.claude.com/en/guide.md and https://docs.claude.com/en/api.md''\<rparr>
      else if req_url r = ''https://code.claude.com/docs/llms.txt''
      then Inr \<lparr>status_code = 200,
                resp_text = ''https://docs.claude.com/en/api.md https://code.claude.com/docs/en/setup.md''\<rparr>
      else if req_url r = ''https://docs.claude.com/en/guide.md''
      then Inl Timeout
      else Inr \<lparr>status_code = 200, resp_text = ''# Page''\<rparr>)"

definition sample_env :: env where
  "sample_env =
     \<lparr>network = sample_network, re_findall = sample_findall,
      urlparse_path = sample_urlparse_path\<rparr>"





text \<open>
  Three worlds, all with the working directory \<^verbatim>\<open>/home\<close> and nothing write-protected:
  an empty one, one left by an earlier run, and one where a page was saved as
  \<^verbatim>\<open>out/claude-docs/a.md\<close>.
\<close>

definition fresh_world :: world where
  "fresh_world =
     \<lparr>entries = map_of [([''home''], Dir)],
      cwd = [''home''], writable = (\<lambda>d. True), trace = []\<rparr>"

definition populated_world :: world where
  "populated_world =
     \<lparr>entries = map_of
        [([''home''], Dir),
         ([''home'', ''out''], Dir),
         ([''home'', ''out'', ''claude-docs''], Dir),
         ([''home'', ''out'', ''claude-docs'', ''en''], Dir),
         ([''home'', ''out'', ''claude-docs'', ''en'', ''api.md''], File ''# API''),
         ([''home'', ''out'', ''claude-docs'', ''en'', ''guide.md''], File ''# Guide'')],
      cwd = [''home''], writable = (\<lambda>d. True), trace = []\<rparr>"


section \<open>Properties\<close>

subsection \<open>Requests and the trace\<close>

lemma requests_get_eq:
  "requests_get e url user_agent_headers 30 allow w =
     (network e (trace w)
        \<lparr>req_verb = ''GET'', req_url = url, req_headers = user_agent_headers,
         req_timeout = 30, req_allow_redirects = allow\<rparr>,
      w\<lparr>trace := trace w @ [HttpGet \<lparr>req_verb = ''GET'', req_url = url,
         req_headers = user_agent_headers, req_timeout = 30, req_allow_redirects = allow\<rparr>]\<rparr>)"
  by (simp add: requests_get_def Let_def)

lemma fetch_try_world:
  "snd (fetch_try e name cfg f follow w)
     = w\<lparr>trace := trace w @ [HttpGet (index_request cfg follow)]\<rparr>"
  by (simp add: fetch_try_def requests_get_eq index_request_def split: sum.splits)

lemma fetch_urls_from_source_world:
  "snd (fetch_urls_from_source e name cfg f follow w)
     = w\<lparr>trace := trace w @ [HttpGet (index_request cfg follow)]\<rparr>"
  using fetch_try_world [of e name cfg f follow w]
  by (cases "fetch_try e name cfg f follow w")
     (auto simp: fetch_urls_from_source_def split: sum.splits)

lemma fetch_request_trace:
  "trace (snd (fetch_urls_from_source e name cfg f follow w))
     = trace w @ [HttpGet (index_request cfg follow)]"
  by (simp add: fetch_urls_from_source_world)

lemma os_mkdir_trace: "trace (snd (os_mkdir p w)) = trace w"
  by (simp add: os_mkdir_def Let_def split: option.splits)

lemma mkdir_exist_ok_trace: "trace (snd (mkdir_exist_ok p w)) = trace w"
  using os_mkdir_trace [of p w]
  by (cases "os_mkdir p w") (auto simp: mkdir_exist_ok_def split: sum.splits)

lemma os_makedirs_trace: "trace (snd (os_makedirs name w)) = trace w"
proof (induction name w rule: os_makedirs.induct)
  case (1 name w)
  show ?case
  proof (cases "fst (makedirs_parts name) \<noteq> [] \<and> snd (makedirs_parts name) \<noteq> []
         \<and> \<not> os_path_exists w (fst (makedirs_parts name))")
    case True
    obtain res w1 where rec: "os_makedirs (fst (makedirs_parts name)) w = (res, w1)"
      by (cases "os_makedirs (fst (makedirs_parts name)) w")
    have t1: "trace w1 = trace w" using "1.IH" True rec by simp
    show ?thesis
      apply (subst os_makedirs.simps)
      using True rec t1 mkdir_exist_ok_trace [of name w1]
      by (auto split: sum.splits)
  next
    case False
    show ?thesis
      apply (subst os_makedirs.simps)
      using False mkdir_exist_ok_trace [of name w] by auto
  qed
qed

lemma write_text_trace: "trace (snd (write_text p s w)) = trace w"
  by (simp add: write_text_def Let_def split: option.splits)

lemma download_try_trace:
  "trace (snd (download_try e url local_path w)) = trace w @ [HttpGet (file_request url)]"
proof -
  let ?w1 = "w\<lparr>trace := trace w @ [HttpGet (file_request url)]\<rparr>"
  have get: "requests_get e url user_agent_headers 30 True w
               = (network e (trace w) (file_request url), ?w1)"
    by (simp add: requests_get_eq file_request_def)
  show ?thesis
  proof (cases "network e (trace w) (file_request url)")
    case (Inl x)
    then show ?thesis by (simp add: download_try_def get)
  next
    case (Inr response)
    show ?thesis
    proof (cases "raise_for_status response")
      case (Inl x)
      then show ?thesis using Inr by (simp add: download_try_def get)
    next
      case ok: (Inr u)
      obtain r2 w2 where mk: "os_makedirs (os_path_dirname local_path) ?w1 = (r2, w2)"
        by (cases "os_makedirs (os_path_dirname local_path) ?w1")
      have t2: "trace w2 = trace ?w1"
        using os_makedirs_trace [of "os_path_dirname local_path" ?w1] mk by simp
      obtain r3 w3 where wr: "write_text local_path (resp_text response) w2 = (r3, w3)"
        by (cases "write_text local_path (resp_text response) w2")
      have t3: "trace w3 = trace w2"
        using write_text_trace [of local_path "resp_text response" w2] wr by simp
      show ?thesis
        using Inr ok mk wr t2 t3
        by (auto simp: download_try_def get split: sum.splits)
    qed
  qed
qed

lemma download_file_trace:
  "trace (snd (download_file e url local_path w))
     = trace w @ [HttpGet \<lparr>req_verb = ''GET'', req_url = url, req_headers = user_agent_headers,
                          req_timeout = 30, req_allow_redirects = True\<rparr>]"
  using download_try_trace [of e url local_path w]
  by (cases "download_try e url local_path w")
     (auto simp: download_file_def file_request_def split: sum.splits)

text \<open>
  Claim C6 (both retrievals use GET, the fixed user agent, a timeout of 30 and the
  caller's redirect toggle; with the toggle off the file download follows no
  redirect either). The index request carries the toggle (\<open>fetch_request_trace\<close>),
  but the request of \<^verbatim>\<open>download_file\<close> is always issued with redirects allowed
  (\<open>download_file_trace\<close>): line 122 passes no \<^verbatim>\<open>allow_redirects\<close>. The run below
  is \<^verbatim>\<open>--claude-docs --filter api --no-follow-redirects\<close> on the sample
  surroundings: the index is requested without redirects, the page with.
\<close>

theorem file_request_ignores_redirect_toggle:
  "trace (snd (main sample_env
      \<lparr>arg_filter = Some ''api'', arg_output = ''out'', arg_claude_docs = True,
       arg_claude_code = False, arg_no_follow_redirects = True\<rparr> fresh_world))
   = [HttpGet \<lparr>req_verb = ''GET'', req_url = ''https://docs.anthropic.com/llms.txt'',
               req_headers = user_agent_headers, req_timeout = 30,
               req_allow_redirects = False\<rparr>,
      HttpGet \<lparr>req_verb = ''GET'', req_url = ''https://docs.claude.com/en/api.md'',
               req_headers = user_agent_headers, req_timeout = 30,
               req_allow_redirects = True\<rparr>,
      Sleep (1 / 2)]"
  by code_simp


subsection \<open>Index fetcher\<close>

lemma str_contains_iff: "str_contains sub s \<longleftrightarrow> (\<exists>p q. s = p @ sub @ q)"
proof (induction s)
  case Nil
  then show ?case by auto
next
  case (Cons x xs)
  show ?case
  proof
    assume "str_contains sub (x # xs)"
    then consider "prefix sub (x # xs)" | "str_contains sub xs" by auto
    then show "\<exists>p q. x # xs = p @ sub @ q"
    proof cases
      case 1
      then obtain q where "x # xs = sub @ q" by (auto simp: prefix_def)
      then have "x # xs = [] @ sub @ q" by simp
      then show ?thesis by blast
    next
      case 2
      then obtain p q where "xs = p @ sub @ q" using Cons.IH by blast
      then have "x # xs = (x # p) @ sub @ q" by simp
      then show ?thesis by blast
    qed
  next
    assume "\<exists>p q. x # xs = p @ sub @ q"
    then obtain p q where pq: "x # xs = p @ sub @ q" by blast
    show "str_contains sub (x # xs)"
    proof (cases p)
      case Nil
      then have "prefix sub (x # xs)" using pq by (simp add: prefix_def)
      then show ?thesis by simp
    next
      case (Cons y ys)
      then have "xs = ys @ sub @ q" using pq by simp
      then show ?thesis using Cons.IH by auto
    qed
  qed
qed

text \<open>
  Claim C4: for every list of matches and every non-empty filter string, what the
  filter of lines 63-65 keeps is a subset of the unfiltered matches, every kept URL
  contains the filter string as a contiguous block, and no URL that was not matched
  appears. The filter keeps exactly the matches that contain the string.
\<close>

theorem filter_keeps_only_matches_containing_it:
  assumes "f \<noteq> []"
  shows "set (apply_filter (Some f) matches) \<subseteq> set (apply_filter None matches)
       \<and> (\<forall>u \<in> set (apply_filter (Some f) matches). \<exists>p q. u = p @ f @ q)
       \<and> (\<forall>u. u \<notin> set (apply_filter None matches) \<longrightarrow> u \<notin> set (apply_filter (Some f) matches))
       \<and> apply_filter (Some f) matches = filter (\<lambda>u. \<exists>p q. u = p @ f @ q) matches"
proof -
  have "str_contains f = (\<lambda>u. \<exists>p q. u = p @ f @ q)"
    by (simp add: fun_eq_iff str_contains_iff)
  then show ?thesis
    using assms by (auto simp: apply_filter_def)
qed

theorem filter_keeps_only_matches_containing_it_witness:
  "''guide'' \<noteq> []
   \<and> apply_filter (Some ''guide'')
        [''https://docs.claude.com/en/api.md'', ''https://docs.claude.com/en/guide.md'']
       = [''https://docs.claude.com/en/guide.md'']
   \<and> set (apply_filter (Some ''guide'')
        [''https://docs.claude.com/en/api.md'', ''https://docs.claude.com/en/guide.md''])
       \<subseteq> set (apply_filter None
        [''https://docs.claude.com/en/api.md'', ''https://docs.claude.com/en/guide.md''])
   \<and> (\<exists>p q. ''https://docs.claude.com/en/guide.md'' = p @ ''guide'' @ q)"
proof -
  have ne: "''guide'' \<noteq> []" by simp
  have ev: "apply_filter (Some ''guide'')
        [''https://docs.claude.com/en/api.md'', ''https://docs.claude.com/en/guide.md'']
       = [''https://docs.claude.com/en/guide.md'']"
    by code_simp
  show ?thesis
    using filter_keeps_only_matches_containing_it [OF ne,
        of "[''https://docs.claude.com/en/api.md'', ''https://docs.claude.com/en/guide.md'']"]
    unfolding ev by simp
qed






subsection \<open>Aggregator\<close>

lemma fetch_all_loop_union:
  "fetch_all_loop e sources f r acc w =
     (case union_of_fetches e (registered sources) f r w of
        (Inl x, w1) \<Rightarrow> (Inl x, w1)
      | (Inr urls, w1) \<Rightarrow> (Inr (acc \<union> urls), w1))"
proof (induction sources arbitrary: acc w)
  case Nil
  then show ?case by (simp add: registered_def)
next
  case (Cons s sources)
  show ?case
  proof (cases "SOURCES s")
    case None
    then show ?thesis using Cons.IH [of acc w] by (simp add: registered_def)
  next
    case (Some c)
    obtain res w1 where fs: "fetch_urls_from_source e s c f r w = (res, w1)"
      by (cases "fetch_urls_from_source e s c f r w")
    show ?thesis
    proof (cases res)
      case (Inl x)
      then show ?thesis using Some fs by (simp add: registered_def)
    next
      case (Inr urls)
      have reg: "registered (s # sources) = (s, c) # registered sources"
        using Some by (simp add: registered_def)
      show ?thesis
        using Some fs Inr Cons.IH [of "acc \<union> urls" w1]
        by (simp add: reg Un_assoc split: prod.splits sum.splits)
    qed
  qed
qed

text \<open>
  Claim C10: for every list of source identifiers, \<^verbatim>\<open>fetch_all_urls\<close> is the union
  of \<^verbatim>\<open>fetch_urls_from_source\<close> over the identifiers that the registry knows, in
  the order given; an identifier outside the registry is passed over, adds nothing
  and raises nothing.
\<close>

theorem fetch_all_urls_is_union_over_registered:
  "fetch_all_urls e sources f r w = union_of_fetches e (registered sources) f r w
   \<and> map fst (registered sources) = filter (\<lambda>s. SOURCES s \<noteq> None) sources
   \<and> map (\<lambda>p. Some (snd p)) (registered sources)
       = map SOURCES (filter (\<lambda>s. SOURCES s \<noteq> None) sources)"
proof (intro conjI)
  show "fetch_all_urls e sources f r w = union_of_fetches e (registered sources) f r w"
    by (simp add: fetch_all_urls_def fetch_all_loop_union split: prod.splits sum.splits)
  show "map fst (registered sources) = filter (\<lambda>s. SOURCES s \<noteq> None) sources"
    by (induction sources) (auto simp: registered_def)
  show "map (\<lambda>p. Some (snd p)) (registered sources)
       = map SOURCES (filter (\<lambda>s. SOURCES s \<noteq> None) sources)"
    by (induction sources) (auto simp: registered_def)
qed


theorem fetch_all_urls_is_union_over_registered_witness:
  "registered [''claude-docs'', ''unknown'', ''claude-code'']
     = [(''claude-docs'', claude_docs_config), (''claude-code'', claude_code_config)]
   \<and> fetch_all_urls sample_env [''claude-docs'', ''unknown'', ''claude-code''] None True
        fresh_world
     = union_of_fetches sample_env
        [(''claude-docs'', claude_docs_config), (''claude-code'', claude_code_config)]
        None True fresh_world
   \<and> fst (fetch_all_urls sample_env [''claude-docs'', ''unknown'', ''claude-code''] None True
        fresh_world)
     = fst (fetch_all_urls sample_env [''claude-docs'', ''claude-code''] None True fresh_world)"
proof -
  have reg: "registered [''claude-docs'', ''unknown'', ''claude-code'']
     = [(''claude-docs'', claude_docs_config), (''claude-code'', claude_code_config)]"
    by (simp add: registered_def SOURCES_def)
  have same: "fst (fetch_all_urls sample_env [''claude-docs'', ''unknown'', ''claude-code''] None
        True fresh_world)
     = fst (fetch_all_urls sample_env [''claude-docs'', ''claude-code''] None True fresh_world)"
    by code_simp
  show ?thesis
    using fetch_all_urls_is_union_over_registered
      [of sample_env "[''claude-docs'', ''unknown'', ''claude-code'']" None True fresh_world]
      reg same
    by simp
qed

lemma fetch_urls_finite:
  "fetch_urls_from_source e s c f r w = (Inr urls, w1) \<Longrightarrow> finite urls"
  by (auto simp: fetch_urls_from_source_def fetch_try_def requests_get_eq
        split: sum.splits if_splits)

lemma fetch_all_loop_finite:
  "fetch_all_loop e sources f r acc w = (Inr result, w1) \<Longrightarrow> finite acc \<Longrightarrow> finite result"
proof (induction sources arbitrary: acc w)
  case Nil
  then show ?case by simp
next
  case (Cons s sources)
  show ?case
  proof (cases "SOURCES s")
    case None
    then show ?thesis using Cons by simp
  next
    case (Some c)
    obtain res w0 where fs: "fetch_urls_from_source e s c f r w = (res, w0)"
      by (cases "fetch_urls_from_source e s c f r w")
    show ?thesis
    proof (cases res)
      case (Inl x)
      then show ?thesis using Cons.prems Some fs by simp
    next
      case (Inr urls)
      then have "finite (acc \<union> urls)" using fetch_urls_finite fs Cons.prems(2) by blast
      moreover have "fetch_all_loop e sources f r (acc \<union> urls) w0 = (Inr result, w1)"
        using Cons.prems(1) Some fs Inr by simp
      ultimately show ?thesis using Cons.IH by blast
    qed
  qed
qed










subsection \<open>Strings, paths and the file system\<close>


lemma str_split_no_sep: "c \<notin> set s \<Longrightarrow> str_split c s = [s]"
  by (induction s) auto











lemma lookup_trace [simp]: "lookup (w\<lparr>trace := t\<rparr>) loc = lookup w loc"
  by (simp add: lookup_def)

lemma walk_trace [simp]: "walk (w\<lparr>trace := t\<rparr>) cur cs = walk w cur cs"
  by (induction cs arbitrary: cur) auto

lemma os_path_exists_trace [simp]: "os_path_exists (w\<lparr>trace := t\<rparr>) p = os_path_exists w p"
  by (simp add: os_path_exists_def resolve_def start_of_def split: option.splits)



















lemma extends_trans: "extends a b \<Longrightarrow> extends b c \<Longrightarrow> extends a c"
  by (simp add: extends_def)






lemma os_makedirs_empty: "os_makedirs [] w = (Inl FileNotFoundError, w)"
  by (subst os_makedirs.simps)
     (simp add: makedirs_parts_def os_path_split_def rstrip_head_def mkdir_exist_ok_def
        os_mkdir_def os_path_isdir_def resolve_def)












lemma str_join_Cons: "ps \<noteq> [] \<Longrightarrow> str_join sep (p # ps) = p @ sep @ str_join sep ps"
  by (cases ps) auto








subsection \<open>Path mapper\<close>


lemma create_directory_structure_eq:
  assumes "urlparse_path e url = Inr path"
  shows "create_directory_structure e url base_dir source_name w =
     (case os_makedirs (dir_path_of path base_dir source_name) w of
        (Inl x, w1) \<Rightarrow> (Inl x, w1)
      | (Inr u, w1) \<Rightarrow> (Inr (local_path_of path base_dir source_name), w1))"
  using assms
  by (auto simp: create_directory_structure_def Let_def dir_path_of_def local_path_of_def
        split: prod.splits sum.splits)

lemma create_directory_structure_trace:
  "trace (snd (create_directory_structure e url base_dir source_name w)) = trace w"
proof (cases "urlparse_path e url")
  case (Inl x)
  then show ?thesis by (simp add: create_directory_structure_def)
next
  case (Inr path)
  show ?thesis
    using os_makedirs_trace [of "dir_path_of path base_dir source_name" w]
    by (cases "os_makedirs (dir_path_of path base_dir source_name) w")
       (auto simp: create_directory_structure_eq [OF Inr] split: sum.splits)
qed







subsection \<open>Orchestrator\<close>






lemma download_file_request:
  "trace (snd (download_file e url local_path w)) = trace w @ [HttpGet (file_request url)]"
  using download_file_trace [of e url local_path w] by (simp add: file_request_def)

lemma download_file_raises:
  "download_file e url local_path w = (Inl x, w1) \<Longrightarrow> \<not> is_Exception x"
  by (cases "download_try e url local_path w")
     (auto simp: download_file_def split: sum.splits if_splits)

lemma requested_urls_append:
  "requested_urls (xs @ ys) = requested_urls xs @ requested_urls ys"
  by (induction xs rule: requested_urls.induct) auto

lemma paced_Cons_Skip:
  "paced (SkipExisting p # es) = (paced es \<and> (\<forall>d es'. es \<noteq> Sleep d # es'))"
  by (cases es rule: paced.cases) auto

lemma paced_append: "paced xs \<Longrightarrow> paced ys \<Longrightarrow> paced (xs @ ys)"
  by (induction xs rule: paced.induct) (auto simp: paced_Cons_Skip)

lemma loop_trace:
  "\<exists>new. trace (snd (download_loop e base_dir todo t w)) = trace w @ new
     \<and> subseq (requested_urls new) (map fst todo)
     \<and> (paced new
         \<or> (\<exists>pre r x. new = pre @ [HttpGet r] \<and> paced pre
               \<and> fst (download_loop e base_dir todo t w) = Inl x \<and> \<not> is_Exception x))"
proof (induction todo arbitrary: t w)
  case Nil
  show ?case by simp
next
  case (Cons link todo)
  obtain url source_name where link: "link = (url, source_name)" by (cases link)
  obtain r1 w1 where cds: "create_directory_structure e url base_dir source_name w = (r1, w1)"
    by (cases "create_directory_structure e url base_dir source_name w")
  have t1: "trace w1 = trace w"
    using create_directory_structure_trace [of e url base_dir source_name w] cds by simp
  show ?case
  proof (cases r1)
    case (Inl x)
    then have "trace (snd (download_loop e base_dir (link # todo) t w)) = trace w @ []"
      using link cds t1 by simp
    moreover have "subseq (requested_urls []) (map fst (link # todo))" by simp
    moreover have "paced []" by simp
    ultimately show ?thesis by blast
  next
    case (Inr local_path)
    show ?thesis
    proof (cases "os_path_exists w1 local_path")
      case True
      let ?w2 = "w1\<lparr>trace := trace w1 @ [SkipExisting local_path]\<rparr>"
      let ?t2 = "t\<lparr>skipped := skipped t + 1\<rparr>"
      have step: "download_loop e base_dir (link # todo) t w = download_loop e base_dir todo ?t2 ?w2"
        using link cds Inr True by simp
      obtain new where n1: "trace (snd (download_loop e base_dir todo ?t2 ?w2)) = trace ?w2 @ new"
        and n2: "subseq (requested_urls new) (map fst todo)"
        and n3: "paced new
         \<or> (\<exists>pre r x. new = pre @ [HttpGet r] \<and> paced pre
               \<and> fst (download_loop e base_dir todo ?t2 ?w2) = Inl x \<and> \<not> is_Exception x)"
        using Cons.IH [of ?t2 ?w2] by blast
      let ?new = "[SkipExisting local_path] @ new"
      have a: "trace (snd (download_loop e base_dir (link # todo) t w)) = trace w @ ?new"
        using step n1 t1 by simp
      have b: "subseq (requested_urls ?new) (map fst (link # todo))"
        using n2 by (auto simp: requested_urls_append intro: list_emb_Cons)
      have c: "paced ?new
         \<or> (\<exists>pre r x. ?new = pre @ [HttpGet r] \<and> paced pre
               \<and> fst (download_loop e base_dir (link # todo) t w) = Inl x \<and> \<not> is_Exception x)"
      proof (cases "paced new")
        case True
        then show ?thesis using paced_append [of "[SkipExisting local_path]" new] by simp
      next
        case False
        then obtain pre r x where pre: "new = pre @ [HttpGet r]" "paced pre"
          "fst (download_loop e base_dir todo ?t2 ?w2) = Inl x" "\<not> is_Exception x"
          using n3 by blast
        have "?new = ([SkipExisting local_path] @ pre) @ [HttpGet r]" using pre(1) by simp
        moreover have "paced ([SkipExisting local_path] @ pre)"
          using paced_append [of "[SkipExisting local_path]" pre] pre(2) by simp
        ultimately show ?thesis using pre(3,4) step by metis
      qed
      show ?thesis using a b c by blast
    next
      case False
      obtain r2 w2 where dl: "download_file e url local_path w1 = (r2, w2)"
        by (cases "download_file e url local_path w1")
      have t2: "trace w2 = trace w @ [HttpGet (file_request url)]"
        using download_file_request [of e url local_path w1] dl t1 by simp
      show ?thesis
      proof (cases r2)
        case (Inl x)
        then have res: "download_loop e base_dir (link # todo) t w = (Inl x, w2)"
          using link cds Inr False dl by simp
        have nx: "\<not> is_Exception x" using download_file_raises dl Inl by blast
        have a: "trace (snd (download_loop e base_dir (link # todo) t w))
            = trace w @ [HttpGet (file_request url)]"
          using res t2 by simp
        have b: "subseq (requested_urls [HttpGet (file_request url)]) (map fst (link # todo))"
          using link by (simp add: file_request_def)
        have c: "[HttpGet (file_request url)] = [] @ [HttpGet (file_request url)] \<and> paced []
            \<and> fst (download_loop e base_dir (link # todo) t w) = Inl x \<and> \<not> is_Exception x"
          using res nx by simp
        show ?thesis using a b c by blast
      next
        case ok: (Inr ok)
        let ?w3 = "time_sleep (1 / 2) w2"
        let ?t3 = "if ok then t\<lparr>successful := successful t + 1\<rparr> else t\<lparr>failed := failed t + 1\<rparr>"
        have step: "download_loop e base_dir (link # todo) t w = download_loop e base_dir todo ?t3 ?w3"
          using link cds Inr False dl ok by simp
        have t3: "trace ?w3 = trace w @ [HttpGet (file_request url), Sleep (1 / 2)]"
          using t2 by (simp add: time_sleep_def)
        obtain new where n1: "trace (snd (download_loop e base_dir todo ?t3 ?w3)) = trace ?w3 @ new"
          and n2: "subseq (requested_urls new) (map fst todo)"
          and n3: "paced new
           \<or> (\<exists>pre r x. new = pre @ [HttpGet r] \<and> paced pre
                 \<and> fst (download_loop e base_dir todo ?t3 ?w3) = Inl x \<and> \<not> is_Exception x)"
          using Cons.IH [of ?t3 ?w3] by blast
        let ?chunk = "[HttpGet (file_request url), Sleep (1 / 2)]"
        let ?new = "?chunk @ new"
        have pc: "paced ?chunk" by simp
        have a: "trace (snd (download_loop e base_dir (link # todo) t w)) = trace w @ ?new"
          using step n1 t3 by simp
        have b: "subseq (requested_urls ?new) (map fst (link # todo))"
          using n2 link by (simp add: file_request_def)
        have c: "paced ?new
           \<or> (\<exists>pre r x. ?new = pre @ [HttpGet r] \<and> paced pre
                 \<and> fst (download_loop e base_dir (link # todo) t w) = Inl x \<and> \<not> is_Exception x)"
        proof (cases "paced new")
          case True
          then show ?thesis using paced_append [OF pc] by blast
        next
          case False
          then obtain pre r x where pre: "new = pre @ [HttpGet r]" "paced pre"
            "fst (download_loop e base_dir todo ?t3 ?w3) = Inl x" "\<not> is_Exception x"
            using n3 by blast
          have "?new = (?chunk @ pre) @ [HttpGet r]" using pre(1) by simp
          moreover have "paced (?chunk @ pre)" using paced_append [OF pc pre(2)] .
          ultimately show ?thesis using pre(3,4) step by metis
        qed
        show ?thesis using a b c by blast
      qed
    qed
  qed
qed

lemma pair_less_lex:
  "(p < q) = (fst p < fst q \<or> fst p = fst q \<and> snd p < snd q)"
  for p q :: "string \<times> string"
  by (auto simp: less_prod_def)

text \<open>
  Claim C7: whenever the aggregator returns a non-empty set and the output root
  can be made, \<^verbatim>\<open>main\<close> runs the loop over the list that holds exactly the
  aggregated pairs in strictly increasing lexicographic order (URL first, source
  identifier second, strings compared character by character), and the URLs it
  requests after that are, in this order, a subsequence of the URLs of that list.
  The list is a function of the set, so two runs over the same set use the same
  order.
\<close>

theorem downloads_follow_sorted_pairs:
  assumes "fetch_all_urls e (sources_to_fetch a) (arg_filter a) (\<not> arg_no_follow_redirects a) w
             = (Inr url_tuples, w1)"
      and "url_tuples \<noteq> {}"
      and "os_makedirs (arg_output a) w1 = (Inr u, w2)"
  shows "main e a w
           = (case download_loop e (arg_output a) (sorted_tuples url_tuples)
                     \<lparr>successful = 0, failed = 0, skipped = 0\<rparr> w2 of
                (Inl x, w3) \<Rightarrow> (Inl x, w3)
              | (Inr t, w3) \<Rightarrow> (Inr (Some t), w3))
       \<and> set (sorted_tuples url_tuples) = url_tuples
       \<and> sorted_wrt (\<lambda>p q. fst p < fst q \<or> fst p = fst q \<and> snd p < snd q)
            (sorted_tuples url_tuples)
       \<and> (\<exists>new. trace (snd (main e a w)) = trace w2 @ new
              \<and> subseq (requested_urls new) (map fst (sorted_tuples url_tuples)))"
proof -
  let ?loop = "download_loop e (arg_output a) (sorted_tuples url_tuples)
                     \<lparr>successful = 0, failed = 0, skipped = 0\<rparr> w2"
  have m: "main e a w = (case ?loop of (Inl x, w3) \<Rightarrow> (Inl x, w3)
              | (Inr t, w3) \<Rightarrow> (Inr (Some t), w3))"
    using assms by (simp add: main_def Let_def)
  have fin: "finite url_tuples"
    using fetch_all_loop_finite [of e "sources_to_fetch a" "arg_filter a"
        "\<not> arg_no_follow_redirects a" "{}" w url_tuples w1] assms(1)
    by (simp add: fetch_all_urls_def)
  have s: "set (sorted_tuples url_tuples) = url_tuples"
    using fin by (simp add: sorted_tuples_def)
  have "sorted_wrt (<) (sorted_tuples url_tuples)"
    using fin by (simp add: sorted_tuples_def)
  then have o: "sorted_wrt (\<lambda>p q. fst p < fst q \<or> fst p = fst q \<and> snd p < snd q)
            (sorted_tuples url_tuples)"
    by (simp add: pair_less_lex [abs_def])
  have "snd (main e a w) = snd ?loop"
    using m by (cases ?loop) (auto split: sum.splits)
  then have t: "\<exists>new. trace (snd (main e a w)) = trace w2 @ new
              \<and> subseq (requested_urls new) (map fst (sorted_tuples url_tuples))"
    using loop_trace [of e "arg_output a" "sorted_tuples url_tuples"
        "\<lparr>successful = 0, failed = 0, skipped = 0\<rparr>" w2] by auto
  show ?thesis using m s o t by blast
qed

theorem downloads_follow_sorted_pairs_witness:
  "fst (fetch_all_urls sample_env [''claude-docs'', ''claude-code''] None True populated_world)
     = Inr {(''https://docs.claude.com/en/api.md'', ''claude-docs''),
            (''https://docs.claude.com/en/guide.md'', ''claude-docs''),
            (''https://docs.claude.com/en/api.md'', ''claude-code''),
            (''https://code.claude.com/docs/en/setup.md'', ''claude-code'')}
   \<and> sorted_tuples {(''https://docs.claude.com/en/api.md'', ''claude-docs''),
            (''https://docs.claude.com/en/guide.md'', ''claude-docs''),
            (''https://docs.claude.com/en/api.md'', ''claude-code''),
            (''https://code.claude.com/docs/en/setup.md'', ''claude-code'')}
     = [(''https://code.claude.com/docs/en/setup.md'', ''claude-code''),
        (''https://docs.claude.com/en/api.md'', ''claude-code''),
        (''https://docs.claude.com/en/api.md'', ''claude-docs''),
        (''https://docs.claude.com/en/guide.md'', ''claude-docs'')]
   \<and> sorted_wrt (\<lambda>p q. fst p < fst q \<or> fst p = fst q \<and> snd p < snd q)
       [(''https://code.claude.com/docs/en/setup.md'', ''claude-code''),
        (''https://docs.claude.com/en/api.md'', ''claude-code''),
        (''https://docs.claude.com/en/api.md'', ''claude-docs''),
        (''https://docs.claude.com/en/guide.md'', ''claude-docs'')]
   \<and> requested_urls (trace (snd (main sample_env
          \<lparr>arg_filter = None, arg_output = ''out'', arg_claude_docs = False,
           arg_claude_code = False, arg_no_follow_redirects = False\<rparr> populated_world)))
     = [''https://docs.anthropic.com/llms.txt'', ''https://code.claude.com/docs/llms.txt'',
        ''https://code.claude.com/docs/en/setup.md'', ''https://docs.claude.com/en/api.md'']"
proof -
  let ?a = "\<lparr>arg_filter = None, arg_output = ''out'', arg_claude_docs = False,
           arg_claude_code = False, arg_no_follow_redirects = False\<rparr>"
  let ?T = "{(''https://docs.claude.com/en/api.md'', ''claude-docs''),
            (''https://docs.claude.com/en/guide.md'', ''claude-docs''),
            (''https://docs.claude.com/en/api.md'', ''claude-code''),
            (''https://code.claude.com/docs/en/setup.md'', ''claude-code'')}"
  let ?agg = "fetch_all_urls sample_env [''claude-docs'', ''claude-code''] None True
      populated_world"
  have src: "sources_to_fetch ?a = [''claude-docs'', ''claude-code'']"
    by (simp add: sources_to_fetch_def)
  have agg: "fst ?agg = Inr ?T" by code_simp
  then have h1: "fetch_all_urls sample_env (sources_to_fetch ?a) (arg_filter ?a)
      (\<not> arg_no_follow_redirects ?a) populated_world = (Inr ?T, snd ?agg)"
    unfolding src by (cases ?agg) simp
  have h2: "?T \<noteq> {}" by simp
  have mk: "fst (os_makedirs ''out'' (snd ?agg)) = Inr ()" by code_simp
  then have h3: "os_makedirs (arg_output ?a) (snd ?agg)
      = (Inr (), snd (os_makedirs ''out'' (snd ?agg)))"
    by (cases "os_makedirs ''out'' (snd ?agg)") simp
  have st: "sorted_tuples ?T
     = [(''https://code.claude.com/docs/en/setup.md'', ''claude-code''),
        (''https://docs.claude.com/en/api.md'', ''claude-code''),
        (''https://docs.claude.com/en/api.md'', ''claude-docs''),
        (''https://docs.claude.com/en/guide.md'', ''claude-docs'')]"
    by code_simp
  have rq: "requested_urls (trace (snd (main sample_env ?a populated_world)))
     = [''https://docs.anthropic.com/llms.txt'', ''https://code.claude.com/docs/llms.txt'',
        ''https://code.claude.com/docs/en/setup.md'', ''https://docs.claude.com/en/api.md'']"
    by code_simp
  show ?thesis
    using downloads_follow_sorted_pairs [OF h1 h2 h3] agg rq
    unfolding st by simp
qed

text \<open>
  Claim C8: what the loop adds to the trace is paced: every download request is
  directly followed by the pause of half a time unit, whether the download
  succeeded or failed, and no skip message is followed by a pause. The only other
  outcome is a run cut short inside a download by something that is not an
  \<^verbatim>\<open>Exception\<close> (an interrupt): then the trace is a paced stretch followed by that
  last request.
\<close>

theorem pause_follows_attempts_only:
  "\<exists>new. trace (snd (download_loop e base_dir todo t w)) = trace w @ new
     \<and> (paced new
         \<or> (\<exists>pre r x. new = pre @ [HttpGet r] \<and> paced pre
               \<and> fst (download_loop e base_dir todo t w) = Inl x \<and> \<not> is_Exception x))"
  using loop_trace [of e base_dir todo t w] by blast

theorem pause_follows_attempts_only_witness:
  "trace (snd (download_loop sample_env ''out''
       [(''https://code.claude.com/docs/en/setup.md'', ''claude-code''),
        (''https://docs.claude.com/en/api.md'', ''claude-docs''),
        (''https://docs.claude.com/en/guide.md'', ''claude-code'')]
       \<lparr>successful = 0, failed = 0, skipped = 0\<rparr> populated_world))
    = [HttpGet (file_request ''https://code.claude.com/docs/en/setup.md''), Sleep (1 / 2),
       SkipExisting ''out/claude-docs/en/api.md'',
       HttpGet (file_request ''https://docs.claude.com/en/guide.md''), Sleep (1 / 2)]
   \<and> fst (download_loop sample_env ''out''
       [(''https://code.claude.com/docs/en/setup.md'', ''claude-code''),
        (''https://docs.claude.com/en/api.md'', ''claude-docs''),
        (''https://docs.claude.com/en/guide.md'', ''claude-code'')]
       \<lparr>successful = 0, failed = 0, skipped = 0\<rparr> populated_world)
    = Inr \<lparr>successful = 1, failed = 1, skipped = 1\<rparr>
   \<and> paced [HttpGet (file_request ''https://code.claude.com/docs/en/setup.md''), Sleep (1 / 2),
       SkipExisting ''out/claude-docs/en/api.md'',
       HttpGet (file_request ''https://docs.claude.com/en/guide.md''), Sleep (1 / 2)]"
proof -
  let ?todo = "[(''https://code.claude.com/docs/en/setup.md'', ''claude-code''),
        (''https://docs.claude.com/en/api.md'', ''claude-docs''),
        (''https://docs.claude.com/en/guide.md'', ''claude-code'')]"
  let ?run = "download_loop sample_env ''out'' ?todo
       \<lparr>successful = 0, failed = 0, skipped = 0\<rparr> populated_world"
  let ?L = "[HttpGet (file_request ''https://code.claude.com/docs/en/setup.md''), Sleep (1 / 2),
       SkipExisting ''out/claude-docs/en/api.md'',
       HttpGet (file_request ''https://docs.claude.com/en/guide.md''), Sleep (1 / 2)]"
  have tr: "trace (snd ?run) = ?L" by code_simp
  have res: "fst ?run = Inr \<lparr>successful = 1, failed = 1, skipped = 1\<rparr>" by code_simp
  have t0: "trace populated_world = []" by (simp add: populated_world_def)
  obtain new where "trace (snd ?run) = trace populated_world @ new"
    and "paced new \<or> (\<exists>pre r x. new = pre @ [HttpGet r] \<and> paced pre
               \<and> fst ?run = Inl x \<and> \<not> is_Exception x)"
    using pause_follows_attempts_only [of sample_env "''out''" ?todo
        "\<lparr>successful = 0, failed = 0, skipped = 0\<rparr>" populated_world] by blast
  then have "paced ?L" using tr res t0 by auto
  then show ?thesis using tr res by simp
qed

end
